theory Spec2Isabelle
  imports Main "HOL-Library.AList"
begin

section \<open>Values, objects and the store\<close>

text \<open>
  The hook of \<^verbatim>\<open>useContentfulUtility.ts\<close> reads the router's query object and a
  zustand store. The values that occur are \<^verbatim>\<open>undefined\<close>, booleans, strings and arrays
  of strings (the router gives \<^verbatim>\<open>string | string[] | undefined\<close> for a query value).
\<close>

datatype jsval = JUndefined | JBool bool | JStr string | JArr "string list"

text \<open>
  JavaScript truthiness, as used by \<^verbatim>\<open>if (x)\<close> and \<^verbatim>\<open>!x\<close>: \<^verbatim>\<open>undefined\<close>, \<^verbatim>\<open>false\<close>
  and the empty string are falsy; every array is truthy.
\<close>

fun truthy :: "jsval \<Rightarrow> bool" where
  "truthy JUndefined = False"
| "truthy (JBool b) = b"
| "truthy (JStr s) = (s \<noteq> [])"
| "truthy (JArr xs) = True"

text \<open>\<^verbatim>\<open>Array.prototype.join\<close> on an array of strings.\<close>

fun join :: "string \<Rightarrow> string list \<Rightarrow> string" where
  "join sep [] = []"
| "join sep [x] = x"
| "join sep (x # y # ys) = x @ sep @ join sep (y # ys)"

text \<open>The string conversion a template literal applies to an interpolated value.\<close>

fun toString :: "jsval \<Rightarrow> string" where
  "toString JUndefined = ''undefined''"
| "toString (JBool b) = (if b then ''true'' else ''false'')"
| "toString (JStr s) = s"
| "toString (JArr xs) = join '','' xs"

text \<open>
  An object is the list of its own entries in the order \<^verbatim>\<open>Object.entries\<close> yields them.
  The keys of an object are unique: \<open>wf_object\<close>. Reading a property that is missing
  gives \<^verbatim>\<open>undefined\<close>.
\<close>

type_synonym jsobject = "(string \<times> jsval) list"

definition wf_object :: "jsobject \<Rightarrow> bool" where
  "wf_object obj = distinct (map fst obj)"

definition get :: "jsobject \<Rightarrow> string \<Rightarrow> jsval" where
  "get obj key = (case map_of obj key of None \<Rightarrow> JUndefined | Some v \<Rightarrow> v)"

definition entries :: "jsobject \<Rightarrow> (string \<times> jsval) list" where
  "entries obj = obj"

text \<open>
  \<^verbatim>\<open>Object.fromEntries\<close> assigns the entries one after the other: a key that is already
  there keeps its place and takes the new value, a new key goes to the end. (Array indices
  would be enumerated first; the keys that reach \<open>fromEntries\<close> in the hook are the
  recognised parameter names, none of which is one.)
\<close>

definition fromEntries :: "(string \<times> jsval) list \<Rightarrow> jsobject" where
  "fromEntries es = foldl (\<lambda>obj (key, v). AList.update key v obj) [] es"

text \<open>
  The zustand store. \<open>state\<close> is the state object: a property that was never set, or was
  set to \<^verbatim>\<open>undefined\<close>, reads \<open>JUndefined\<close>. \<open>history\<close> records every call of
  \<^verbatim>\<open>setState\<close>, oldest first, as the key and the value of the one-property partial state
  the call passes.
\<close>

record zustand =
  state :: "string \<Rightarrow> jsval"
  history :: "(string \<times> jsval) list"

text \<open>\<^verbatim>\<open>useContentfulUtilityStore.setState({ [key]: v })\<close>: merges the property into the state.\<close>

definition setState :: "string \<Rightarrow> jsval \<Rightarrow> zustand \<Rightarrow> zustand" where
  "setState key v z = z\<lparr>state := (state z)(key := v), history := history z @ [(key, v)]\<rparr>"

text \<open>The state the store is created with (lines 27--31).\<close>

definition initial_state :: "string \<Rightarrow> jsval" where
  "initial_state =
     (\<lambda>_. JUndefined)(''preview'' := JBool False, ''xray'' := JBool False,
        ''domain'' := JStr ''contentful.com'')"

definition useContentfulUtilityStore :: zustand where
  "useContentfulUtilityStore = \<lparr>state = initial_state, history = []\<rparr>"

section \<open>The constants module\<close>

text \<open>
  Modelled from the spec: the module \<^verbatim>\<open>contentful-utility/constants\<close> (the enum
  \<^verbatim>\<open>ContentfulParams\<close>, the three parameter lists and \<^verbatim>\<open>resetParam\<close>) is not among the
  sources. The specification fixes the required guest parameters as \<^verbatim>\<open>space_id\<close> and
  \<^verbatim>\<open>delivery_token\<close>, the optional one as \<^verbatim>\<open>preview_token\<close>, the editorial ones as
  \<^verbatim>\<open>preview\<close> and \<^verbatim>\<open>xray\<close>, and uses \<^verbatim>\<open>reset\<close> as the reset parameter. The enum members
  are the store's property names, since the hook reads \<^verbatim>\<open>store[key]\<close> with them.
\<close>

definition ContentfulParams_preview :: string where
  "ContentfulParams_preview = ''preview''"

definition ContentfulParams_xray :: string where
  "ContentfulParams_xray = ''xray''"

definition ContentfulParams_space_id :: string where
  "ContentfulParams_space_id = ''space_id''"

definition ContentfulParams_delivery_token :: string where
  "ContentfulParams_delivery_token = ''delivery_token''"

definition ContentfulParams_preview_token :: string where
  "ContentfulParams_preview_token = ''preview_token''"

definition guestSpaceRequiredParameters :: "string list" where
  "guestSpaceRequiredParameters = [ContentfulParams_space_id, ContentfulParams_delivery_token]"

definition guestSpaceOptionalParameters :: "string list" where
  "guestSpaceOptionalParameters = [ContentfulParams_preview_token]"

definition editorialParameters :: "string list" where
  "editorialParameters = [ContentfulParams_preview, ContentfulParams_xray]"

definition resetParam :: string where
  "resetParam = ''reset''"

section \<open>The effect: reconciling the query with the store\<close>

text \<open>
  The callback of \<^verbatim>\<open>Object.entries(filteredQuery).forEach\<close> (lines 64--96), for one
  entry. The two \<^verbatim>\<open>if\<close>s of the editorial case run one after the other; every
  \<^verbatim>\<open>return\<close> of the default case leaves the store as it is.
\<close>

definition forEach_callback :: "jsobject \<Rightarrow> jsobject \<Rightarrow> zustand \<Rightarrow> string \<times> jsval \<Rightarrow> zustand" where
  "forEach_callback query filteredQuery z e =
     (case e of (key, v) \<Rightarrow>
        if key = ContentfulParams_preview \<or> key = ContentfulParams_xray then
          (let z1 = (if v = JStr ''true'' then setState key (JBool True) z else z);
               z2 = (if v = JStr ''false'' then setState key (JBool False) z1 else z1)
           in z2)
        else if truthy (get query resetParam) then z
        else if list_ex (\<lambda>key. \<not> truthy (get filteredQuery key)) guestSpaceRequiredParameters then z
        else if key \<in> set guestSpaceOptionalParameters \<and> \<not> truthy (get query key)
          then setState key JUndefined z
        else setState key v z)"

text \<open>
  The callback of \<^verbatim>\<open>useEffect\<close> (lines 42--97): one reconciliation pass of the query
  over the store.
\<close>

definition useEffect :: "jsobject \<Rightarrow> zustand \<Rightarrow> zustand" where
  "useEffect query z =
     (if truthy (get query resetParam) then
        foldl (\<lambda>z key. setState key JUndefined z) z
          (guestSpaceRequiredParameters @ guestSpaceOptionalParameters)
      else
        (let allParams = guestSpaceRequiredParameters @ guestSpaceOptionalParameters
                           @ editorialParameters;
             filteredQuery = fromEntries (filter (\<lambda>(key, _). key \<in> set allParams) (entries query))
         in foldl (forEach_callback query filteredQuery) z (entries filteredQuery)))"

section \<open>The value the hook returns\<close>

text \<open>
  The arguments \<^verbatim>\<open>new GraphQLClient\<close> is called with: the endpoint and the headers.
  \<^verbatim>\<open>getSdk\<close> wraps the client and is not modelled further.
\<close>

datatype client = GraphQLClient (url: string) (headers: "(string \<times> string) list")

record hook_result =
  preview :: jsval
  xray :: jsval
  client :: "client option"

text \<open>Lines 99--126: \<open>None\<close> is \<^verbatim>\<open>client: null\<close>.\<close>

definition useContentfulUtility :: "jsobject \<Rightarrow> (string \<Rightarrow> jsval) \<Rightarrow> hook_result" where
  "useContentfulUtility query store =
     (let space_id = store ''space_id''; preview_token = store ''preview_token'';
          delivery_token = store ''delivery_token''; domain = store ''domain'';
          preview = store ''preview''; xray = store ''xray''
      in if list_ex (\<lambda>key. \<not> truthy (store key)) guestSpaceRequiredParameters
              \<or> truthy (get query resetParam)
         then \<lparr>preview = preview, xray = xray, client = None\<rparr>
         else \<lparr>preview = preview, xray = xray,
               client = Some (GraphQLClient
                 (''https://graphql.'' @ toString domain @ ''/content/v1/spaces/''
                    @ toString space_id @ ''/'')
                 [(''Content-Type'', ''application/json''),
                  (''Authorization'',
                   ''Bearer '' @ toString (if truthy preview then preview_token else delivery_token))])\<rparr>)"

section \<open>Auxiliary notions\<close>

text \<open>
  \<open>replay\<close> performs a list of \<^verbatim>\<open>setState\<close> calls. \<open>callback_calls\<close> and \<open>calls\<close> are
  the calls that one callback, and one whole pass, make when run on an empty store; the
  lemmas below show that they make the same calls on every store.
\<close>

definition replay :: "(string \<times> jsval) list \<Rightarrow> zustand \<Rightarrow> zustand" where
  "replay cs z = foldl (\<lambda>z (key, v). setState key v z) z cs"

definition callback_calls :: "jsobject \<Rightarrow> jsobject \<Rightarrow> string \<times> jsval \<Rightarrow> (string \<times> jsval) list" where
  "callback_calls query filteredQuery e =
     history (forEach_callback query filteredQuery \<lparr>state = (\<lambda>_. JUndefined), history = []\<rparr> e)"

definition calls :: "jsobject \<Rightarrow> (string \<times> jsval) list" where
  "calls query = history (useEffect query \<lparr>state = (\<lambda>_. JUndefined), history = []\<rparr>)"

text \<open>The names in \<^verbatim>\<open>allParams\<close>, and the object \<^verbatim>\<open>filteredQuery\<close> of line 60.\<close>

definition recognised :: "string \<Rightarrow> bool" where
  "recognised key \<longleftrightarrow> key \<in> set (guestSpaceRequiredParameters @ guestSpaceOptionalParameters
                                    @ editorialParameters)"

definition filtered :: "jsobject \<Rightarrow> jsobject" where
  "filtered query = fromEntries (filter (\<lambda>(key, _). recognised key) (entries query))"

text \<open>
  The \<^verbatim>\<open>setState\<close> calls that a pass over \<open>query\<close> adds to the history of \<open>z\<close>, and a
  sequence of passes, one per query, the first query first.
\<close>

definition performed :: "jsobject \<Rightarrow> zustand \<Rightarrow> (string \<times> jsval) list" where
  "performed query z = drop (length (history z)) (history (useEffect query z))"

definition passes :: "jsobject list \<Rightarrow> zustand \<Rightarrow> zustand" where
  "passes queries z = foldl (\<lambda>z query. useEffect query z) z queries"

text \<open>A store that holds a complete guest session, for the examples.\<close>

definition guest_store :: zustand where
  "guest_store =
     \<lparr>state = initial_state(''space_id'' := JStr ''abc'', ''delivery_token'' := JStr ''tok1'',
        ''preview_token'' := JStr ''ptok''),
      history = []\<rparr>"

section \<open>Replaying calls\<close>

lemmas consts_defs = ContentfulParams_preview_def ContentfulParams_xray_def
  ContentfulParams_space_id_def ContentfulParams_delivery_token_def
  ContentfulParams_preview_token_def guestSpaceRequiredParameters_def
  guestSpaceOptionalParameters_def editorialParameters_def resetParam_def

lemma replay_Nil: "replay [] z = z"
  by (simp add: replay_def)

lemma replay_append: "replay (cs @ ds) z = replay ds (replay cs z)"
  by (simp add: replay_def)

lemma replay_single: "replay [(key, v)] z = setState key v z"
  by (simp add: replay_def)

lemma history_replay: "history (replay cs z) = history z @ cs"
  by (induction cs arbitrary: z) (auto simp: replay_def setState_def)

lemma state_replay:
  "state (replay cs z) key = (case map_of (rev cs) key of None \<Rightarrow> state z key | Some w \<Rightarrow> w)"
proof (induction cs rule: rev_induct)
  case Nil
  show ?case by (simp add: replay_def)
next
  case (snoc c cs)
  obtain k w where c: "c = (k, w)" by (cases c)
  show ?case using snoc
    by (simp add: c replay_append replay_single setState_def)
qed

lemma forEach_callback_replay:
  "forEach_callback q fq z e = replay (callback_calls q fq e) z"
  by (cases e) (auto simp: forEach_callback_def callback_calls_def replay_def setState_def Let_def)

lemma foldl_callback_replay:
  "foldl (forEach_callback q fq) z es = replay (concat (map (callback_calls q fq) es)) z"
  by (induction es arbitrary: z) (simp_all add: replay_Nil replay_append forEach_callback_replay)

lemma useEffect_replay: "useEffect q z = replay (calls q) z"
proof (cases "truthy (get q resetParam)")
  case True
  have "\<And>z. foldl (\<lambda>z key. setState key JUndefined z) z ks = replay (map (\<lambda>k. (k, JUndefined)) ks) z" for ks
    by (induction ks) (simp_all add: replay_def)
  then show ?thesis using True
    by (simp add: useEffect_def calls_def history_replay)
next
  case False
  then show ?thesis
    by (simp add: useEffect_def calls_def Let_def foldl_callback_replay history_replay)
qed

section \<open>Building the filtered query\<close>

lemma foldl_update_keys:
  "fst ` set (foldl (\<lambda>obj (key, v). AList.update key v obj) acc es) = fst ` set acc \<union> fst ` set es"
proof (induction es arbitrary: acc)
  case Nil
  show ?case by simp
next
  case (Cons e es)
  have "fst ` set (AList.update (fst e) (snd e) acc) = insert (fst e) (fst ` set acc)"
    by (simp add: dom_update)
  with Cons.IH [of "AList.update (fst e) (snd e) acc"] show ?case
    by (simp add: split_beta)
qed

lemma foldl_update_distinct:
  "distinct (map fst acc) \<Longrightarrow>
   distinct (map fst (foldl (\<lambda>obj (key, v). AList.update key v obj) acc es))"
  by (induction es arbitrary: acc) (auto simp: distinct_update)

lemma update_fresh: "k \<notin> fst ` set al \<Longrightarrow> AList.update k v al = al @ [(k, v)]"
  by (induction al) auto

lemma foldl_update_fresh:
  "distinct (map fst (acc @ es)) \<Longrightarrow>
   foldl (\<lambda>obj (key, v). AList.update key v obj) acc es = acc @ es"
proof (induction es arbitrary: acc)
  case Nil
  show ?case by simp
next
  case (Cons e es)
  obtain k v where e: "e = (k, v)" by (cases e)
  from Cons.prems have fresh: "k \<notin> fst ` set acc" by (auto simp: e)
  from Cons.prems have "distinct (map fst ((acc @ [(k, v)]) @ es))" by (auto simp: e)
  from Cons.IH [OF this] show ?case by (simp add: e update_fresh [OF fresh])
qed

lemma fromEntries_keys: "fst ` set (fromEntries es) = fst ` set es"
  by (simp add: fromEntries_def foldl_update_keys)

lemma fromEntries_distinct: "distinct (map fst (fromEntries es))"
  by (simp add: fromEntries_def foldl_update_distinct)

lemma fromEntries_wf: "distinct (map fst es) \<Longrightarrow> fromEntries es = es"
  using foldl_update_fresh [of "[]" es] by (simp add: fromEntries_def)

lemma useEffect_filtered:
  "\<not> truthy (get q resetParam) \<Longrightarrow>
   useEffect q z = foldl (forEach_callback q (filtered q)) z (filtered q)"
  by (simp add: useEffect_def filtered_def recognised_def entries_def Let_def)

lemma useEffect_reset:
  "truthy (get q resetParam) \<Longrightarrow>
   useEffect q z = replay [(ContentfulParams_space_id, JUndefined),
     (ContentfulParams_delivery_token, JUndefined), (ContentfulParams_preview_token, JUndefined)] z"
  by (simp add: useEffect_def replay_def guestSpaceRequiredParameters_def
      guestSpaceOptionalParameters_def)

lemma filtered_distinct: "distinct (map fst (filtered q))"
  by (simp add: filtered_def fromEntries_distinct)

lemma filtered_keys: "fst ` set (filtered q) = {k \<in> fst ` set q. recognised k}"
  by (force simp: filtered_def fromEntries_keys entries_def)

lemma distinct_map_fst_filter: "distinct (map fst xs) \<Longrightarrow> distinct (map fst (filter P xs))"
  by (induction xs) auto

lemma filtered_wf:
  "wf_object q \<Longrightarrow> filtered q = filter (\<lambda>(key, _). recognised key) q"
  by (simp add: filtered_def entries_def wf_object_def fromEntries_wf distinct_map_fst_filter)

lemma map_of_filter_key:
  "map_of (filter (\<lambda>(key, _). P key) xs) k = (if P k then map_of xs k else None)"
  by (induction xs) auto

lemma get_filtered_wf:
  "wf_object q \<Longrightarrow> get (filtered q) k = (if recognised k then get q k else JUndefined)"
  by (simp add: filtered_wf get_def map_of_filter_key)

lemma get_filtered_absent: "k \<notin> fst ` set q \<Longrightarrow> get (filtered q) k = JUndefined"
proof -
  assume "k \<notin> fst ` set q"
  then have "k \<notin> fst ` set (filtered q)" by (simp add: filtered_keys)
  then have "map_of (filtered q) k = None" by (simp add: map_of_eq_None_iff)
  then show ?thesis by (simp add: get_def)
qed

section \<open>The calls of a pass\<close>

lemma callback_calls_editorial:
  "key = ContentfulParams_preview \<or> key = ContentfulParams_xray \<Longrightarrow>
   callback_calls q fq (key, v) =
     (if v = JStr ''true'' then [(key, JBool True)]
      else if v = JStr ''false'' then [(key, JBool False)] else [])"
  by (auto simp: callback_calls_def forEach_callback_def setState_def)

lemma callback_calls_guest:
  "key \<noteq> ContentfulParams_preview \<Longrightarrow> key \<noteq> ContentfulParams_xray \<Longrightarrow>
   callback_calls q fq (key, v) =
     (if truthy (get q resetParam) then []
      else if list_ex (\<lambda>key. \<not> truthy (get fq key)) guestSpaceRequiredParameters then []
      else if key \<in> set guestSpaceOptionalParameters \<and> \<not> truthy (get q key)
        then [(key, JUndefined)]
      else [(key, v)])"
  by (auto simp: callback_calls_def forEach_callback_def setState_def)

lemma callback_calls_key: "c \<in> set (callback_calls q fq e) \<Longrightarrow> fst c = fst e"
  by (cases e; cases "fst e = ContentfulParams_preview \<or> fst e = ContentfulParams_xray")
     (auto simp: callback_calls_editorial callback_calls_guest split: if_splits)

lemma map_of_rev_concat:
  assumes "distinct (map fst es)" and "\<And>e c. c \<in> set (f e) \<Longrightarrow> fst c = fst e"
  shows "map_of (rev (concat (map f es))) k =
         (case map_of es k of None \<Rightarrow> None | Some v \<Rightarrow> map_of (rev (f (k, v))) k)"
  using assms(1)
proof (induction es)
  case Nil
  show ?case by simp
next
  case (Cons e es)
  obtain k' v' where e: "e = (k', v')" by (cases e)
  have other: "map_of (rev (f (k', v'))) k = None" if "k \<noteq> k'"
  proof -
    have "k \<notin> fst ` set (rev (f (k', v')))" using assms(2) [of _ "(k', v')"] that by auto
    then show ?thesis by (simp add: map_of_eq_None_iff)
  qed
  show ?case
  proof (cases "k = k'")
    case True
    with Cons.prems have "k \<notin> fst ` set es" by (auto simp: e)
    then have "map_of es k = None" by (simp add: map_of_eq_None_iff)
    with Cons show ?thesis by (simp add: e True map_add_def)
  next
    case False
    with Cons other show ?thesis by (simp add: e map_add_def split: option.splits)
  qed
qed

lemma state_useEffect_noreset:
  assumes "\<not> truthy (get q resetParam)"
  shows "state (useEffect q z) k =
    (case map_of (filtered q) k of None \<Rightarrow> state z k
     | Some v \<Rightarrow> (case map_of (rev (callback_calls q (filtered q) (k, v))) k of
                   None \<Rightarrow> state z k | Some w \<Rightarrow> w))"
proof -
  have "map_of (rev (concat (map (callback_calls q (filtered q)) (filtered q)))) k =
     (case map_of (filtered q) k of None \<Rightarrow> None
      | Some v \<Rightarrow> map_of (rev (callback_calls q (filtered q) (k, v))) k)"
    by (rule map_of_rev_concat [OF filtered_distinct]) (rule callback_calls_key)
  then show ?thesis
    by (simp add: useEffect_filtered [OF assms] foldl_callback_replay state_replay
        split: option.splits)
qed

lemma performed_calls: "performed q z = calls q"
  by (simp add: performed_def useEffect_replay history_replay)

lemma calls_reset:
  "truthy (get q resetParam) \<Longrightarrow>
   calls q = [(ContentfulParams_space_id, JUndefined),
     (ContentfulParams_delivery_token, JUndefined), (ContentfulParams_preview_token, JUndefined)]"
  by (simp add: calls_def useEffect_reset history_replay)

lemma calls_noreset:
  "\<not> truthy (get q resetParam) \<Longrightarrow>
   calls q = concat (map (callback_calls q (filtered q)) (filtered q))"
  by (simp add: calls_def useEffect_filtered foldl_callback_replay history_replay)

lemma state_untouched:
  "key \<notin> fst ` set (calls q) \<Longrightarrow> state (useEffect q z) key = state z key"
proof -
  assume "key \<notin> fst ` set (calls q)"
  then have "map_of (rev (calls q)) key = None" by (simp add: map_of_eq_None_iff)
  then show ?thesis by (simp add: useEffect_replay state_replay)
qed

lemma recognised_iff:
  "recognised key \<longleftrightarrow> key \<in> {ContentfulParams_space_id, ContentfulParams_delivery_token,
      ContentfulParams_preview_token, ContentfulParams_preview, ContentfulParams_xray}"
  by (auto simp: recognised_def guestSpaceRequiredParameters_def guestSpaceOptionalParameters_def
      editorialParameters_def)

lemma calls_recognised: "c \<in> set (calls q) \<Longrightarrow> recognised (fst c)"
proof (cases "truthy (get q resetParam)")
  case True
  assume "c \<in> set (calls q)"
  with True show ?thesis by (auto simp: calls_reset recognised_iff)
next
  case False
  assume "c \<in> set (calls q)"
  with False obtain e where e: "e \<in> set (filtered q)" and c: "c \<in> set (callback_calls q (filtered q) e)"
    by (auto simp: calls_noreset)
  from e have "fst e \<in> fst ` set (filtered q)" by (rule imageI)
  then have "recognised (fst e)" by (simp add: filtered_keys)
  with callback_calls_key [OF c] show ?thesis by simp
qed

lemma calls_blocked:
  assumes noreset: "\<not> truthy (get q resetParam)"
    and blocked: "list_ex (\<lambda>key. \<not> truthy (get (filtered q) key)) guestSpaceRequiredParameters"
    and c: "c \<in> set (calls q)"
  shows "fst c \<in> set editorialParameters"
proof -
  from c noreset obtain e where e: "e \<in> set (filtered q)"
    and ce: "c \<in> set (callback_calls q (filtered q) e)"
    by (auto simp: calls_noreset)
  obtain k v where kv: "e = (k, v)" by (cases e)
  show ?thesis
  proof (cases "k = ContentfulParams_preview \<or> k = ContentfulParams_xray")
    case True
    with callback_calls_key [OF ce] show ?thesis by (auto simp: kv editorialParameters_def)
  next
    case False
    with blocked have "callback_calls q (filtered q) (k, v) = []"
      by (simp add: callback_calls_guest)
    with ce show ?thesis by (simp add: kv)
  qed
qed

lemma editorial_not_guest:
  "key \<in> set editorialParameters \<Longrightarrow>
   key \<notin> set (guestSpaceRequiredParameters @ guestSpaceOptionalParameters)"
  by (auto simp: consts_defs)

section \<open>Queries that give the same pass\<close>

lemma get_filter_key:
  "get (filter (\<lambda>(key, _). P key) q) k = (if P k then get q k else JUndefined)"
  by (simp add: get_def map_of_filter_key)

lemma forEach_callback_cong:
  assumes "truthy (get q resetParam) = truthy (get q' resetParam)"
    and "get q (fst e) = get q' (fst e)"
  shows "forEach_callback q fq z e = forEach_callback q' fq z e"
  using assms by (cases e) (simp add: forEach_callback_def)

lemma foldl_callback_cong:
  assumes "truthy (get q resetParam) = truthy (get q' resetParam)"
    and "\<And>e. e \<in> set es \<Longrightarrow> get q (fst e) = get q' (fst e)"
  shows "foldl (forEach_callback q fq) z es = foldl (forEach_callback q' fq) z es"
  using assms(2)
proof (induction es arbitrary: z)
  case Nil
  show ?case by simp
next
  case (Cons e es)
  then show ?case
    by (simp add: forEach_callback_cong [OF assms(1), of e])
qed

lemma resetParam_not_recognised: "\<not> recognised resetParam"
  by (simp add: recognised_iff consts_defs)

lemma useEffect_without_reset_entry:
  assumes "\<not> truthy (get query resetParam)"
  shows "useEffect query z = useEffect (filter (\<lambda>(key, _). key \<noteq> resetParam) query) z"
proof -
  let ?q' = "filter (\<lambda>(key, _). key \<noteq> resetParam) query"
  have reset': "\<not> truthy (get ?q' resetParam)"
    by (simp add: get_filter_key)
  have "filter (\<lambda>(key, _). recognised key) ?q' = filter (\<lambda>(key, _). recognised key) query"
    using resetParam_not_recognised by (induction query) auto
  then have fq: "filtered ?q' = filtered query"
    by (simp add: filtered_def entries_def)
  have same: "get query (fst e) = get ?q' (fst e)" if "e \<in> set (filtered query)" for e
  proof -
    from that have "fst e \<in> fst ` set (filtered query)" by (rule imageI)
    then have "recognised (fst e)" by (simp add: filtered_keys)
    with resetParam_not_recognised have "fst e \<noteq> resetParam" by auto
    then show ?thesis by (simp add: get_filter_key)
  qed
  have "truthy (get query resetParam) = truthy (get ?q' resetParam)"
    using assms reset' by simp
  from foldl_callback_cong [OF this same] show ?thesis
    by (simp add: useEffect_filtered [OF assms] useEffect_filtered [OF reset'] fq)
qed

lemma required_stays_truthy:
  assumes "\<not> truthy (get query resetParam)"
    and "key \<in> set guestSpaceRequiredParameters" and "truthy (state z key)"
  shows "truthy (state (useEffect query z) key)"
proof (cases "map_of (filtered query) key")
  case None
  with assms show ?thesis by (simp add: state_useEffect_noreset)
next
  case (Some v)
  from assms(2) have ne: "key \<noteq> ContentfulParams_preview" "key \<noteq> ContentfulParams_xray"
    and nopt: "key \<notin> set guestSpaceOptionalParameters"
    by (auto simp: consts_defs)
  show ?thesis
  proof (cases "list_ex (\<lambda>key. \<not> truthy (get (filtered query) key)) guestSpaceRequiredParameters")
    case True
    with Some assms ne show ?thesis
      by (simp add: state_useEffect_noreset callback_calls_guest)
  next
    case False
    with assms(2) have "truthy (get (filtered query) key)"
      by (auto simp: list_ex_iff)
    with Some have "truthy v" by (simp add: get_def)
    with Some False assms(1) ne nopt show ?thesis
      by (simp add: state_useEffect_noreset callback_calls_guest)
  qed
qed

section \<open>The claims\<close>

subsection \<open>C1: the reset parameter\<close>

text \<open>
  Claim C1, as stated, lets the mere presence of the reset parameter trigger the reset,
  whatever its value, the empty string included. Line 44 tests \<^verbatim>\<open>query[resetParam]\<close> for
  truthiness, and the empty string is falsy: on the query \<^verbatim>\<open>{reset: ""}\<close> the reset
  parameter is present, and the pass leaves the three guest fields of a populated store
  as they were.
\<close>

theorem reset_empty_string_keeps_guest_fields:
  "resetParam \<in> fst ` set [(''reset'', JStr '''')] \<and>
   state (useEffect [(''reset'', JStr '''')] guest_store) ContentfulParams_space_id = JStr ''abc'' \<and>
   state (useEffect [(''reset'', JStr '''')] guest_store) ContentfulParams_delivery_token = JStr ''tok1'' \<and>
   state (useEffect [(''reset'', JStr '''')] guest_store) ContentfulParams_preview_token = JStr ''ptok''"
  by (simp add: useEffect_def get_def entries_def fromEntries_def guest_store_def consts_defs)

text \<open>
  Claim C1, amended: for every query in which the reset parameter has a truthy value
  (a non-empty string, or an array), the pass unsets \<^verbatim>\<open>space_id\<close>, \<^verbatim>\<open>delivery_token\<close>
  and \<^verbatim>\<open>preview_token\<close>, leaves \<^verbatim>\<open>preview\<close> and \<^verbatim>\<open>xray\<close> as they were, and the hook
  then returns these two with \<^verbatim>\<open>client: null\<close>. A reset parameter whose value is not
  truthy (the empty string) does not trigger the reset: the pass is then the pass over
  the query without the reset entry, and a required guest field that holds a truthy
  value still holds one afterwards.
\<close>

theorem reset_clears_guest_fields:
  "(truthy (get query resetParam) \<longrightarrow>
      state (useEffect query z) ContentfulParams_space_id = JUndefined \<and>
      state (useEffect query z) ContentfulParams_delivery_token = JUndefined \<and>
      state (useEffect query z) ContentfulParams_preview_token = JUndefined \<and>
      state (useEffect query z) ContentfulParams_preview = state z ContentfulParams_preview \<and>
      state (useEffect query z) ContentfulParams_xray = state z ContentfulParams_xray \<and>
      useContentfulUtility query (state (useEffect query z)) =
        \<lparr>preview = state z ContentfulParams_preview, xray = state z ContentfulParams_xray,
         client = None\<rparr>) \<and>
   (\<not> truthy (get query resetParam) \<longrightarrow>
      useEffect query z = useEffect (filter (\<lambda>(key, _). key \<noteq> resetParam) query) z \<and>
      (\<forall>key \<in> set guestSpaceRequiredParameters.
         truthy (state z key) \<longrightarrow> truthy (state (useEffect query z) key)))"
proof (intro conjI impI ballI)
  assume "\<not> truthy (get query resetParam)"
  then show "useEffect query z = useEffect (filter (\<lambda>(key, _). key \<noteq> resetParam) query) z"
    by (rule useEffect_without_reset_entry)
next
  fix key
  assume "\<not> truthy (get query resetParam)" "key \<in> set guestSpaceRequiredParameters"
    "truthy (state z key)"
  then show "truthy (state (useEffect query z) key)" by (rule required_stays_truthy)
qed (simp_all add: useEffect_reset state_replay useContentfulUtility_def Let_def consts_defs)

theorem reset_clears_guest_fields_witness:
  "truthy (get [(''reset'', JStr ''1'')] resetParam) \<and>
   state (useEffect [(''reset'', JStr ''1'')] guest_store) ContentfulParams_space_id = JUndefined \<and>
   state (useEffect [(''reset'', JStr ''1'')] guest_store) ContentfulParams_delivery_token = JUndefined \<and>
   state (useEffect [(''reset'', JStr ''1'')] guest_store) ContentfulParams_preview_token = JUndefined \<and>
   state (useEffect [(''reset'', JStr ''1'')] guest_store) ContentfulParams_preview = JBool False \<and>
   client (useContentfulUtility [(''reset'', JStr ''1'')]
     (state (useEffect [(''reset'', JStr ''1'')] guest_store))) = None \<and>
   \<not> truthy (get [(''reset'', JStr ''''), (''space_id'', JStr ''xyz'')] resetParam) \<and>
   useEffect [(''reset'', JStr ''''), (''space_id'', JStr ''xyz'')] guest_store
      = useEffect [(''space_id'', JStr ''xyz'')] guest_store \<and>
   truthy (state (useEffect [(''reset'', JStr ''''), (''space_id'', JStr ''xyz'')] guest_store)
      ContentfulParams_space_id)"
proof -
  let ?q = "[(''reset'', JStr ''''), (''space_id'', JStr ''xyz'')]"
  have h: "truthy (get [(''reset'', JStr ''1'')] resetParam)"
    by (simp add: get_def resetParam_def)
  have n: "\<not> truthy (get ?q resetParam)"
    by (simp add: get_def resetParam_def)
  have k: "ContentfulParams_space_id \<in> set guestSpaceRequiredParameters"
    by (simp add: guestSpaceRequiredParameters_def)
  have t: "truthy (state guest_store ContentfulParams_space_id)"
    by (simp add: guest_store_def consts_defs)
  from reset_clears_guest_fields [of "[(''reset'', JStr ''1'')]" guest_store] h
  have a: "state (useEffect [(''reset'', JStr ''1'')] guest_store) ContentfulParams_space_id = JUndefined \<and>
      state (useEffect [(''reset'', JStr ''1'')] guest_store) ContentfulParams_delivery_token = JUndefined \<and>
      state (useEffect [(''reset'', JStr ''1'')] guest_store) ContentfulParams_preview_token = JUndefined \<and>
      state (useEffect [(''reset'', JStr ''1'')] guest_store) ContentfulParams_preview
        = state guest_store ContentfulParams_preview \<and>
      state (useEffect [(''reset'', JStr ''1'')] guest_store) ContentfulParams_xray
        = state guest_store ContentfulParams_xray \<and>
      useContentfulUtility [(''reset'', JStr ''1'')] (state (useEffect [(''reset'', JStr ''1'')] guest_store)) =
        \<lparr>preview = state guest_store ContentfulParams_preview,
         xray = state guest_store ContentfulParams_xray, client = None\<rparr>"
    by blast
  from reset_clears_guest_fields [of ?q guest_store] n
  have b: "useEffect ?q guest_store
        = useEffect (filter (\<lambda>(key, _). key \<noteq> resetParam) ?q) guest_store"
    and c: "\<forall>key \<in> set guestSpaceRequiredParameters.
         truthy (state guest_store key) \<longrightarrow> truthy (state (useEffect ?q guest_store) key)"
    by blast+
  from b have b': "useEffect ?q guest_store = useEffect [(''space_id'', JStr ''xyz'')] guest_store"
    by (simp add: resetParam_def)
  from c k t have c': "truthy (state (useEffect ?q guest_store) ContentfulParams_space_id)"
    by blast
  from a have a': "state (useEffect [(''reset'', JStr ''1'')] guest_store) ContentfulParams_preview = JBool False"
    "client (useContentfulUtility [(''reset'', JStr ''1'')]
       (state (useEffect [(''reset'', JStr ''1'')] guest_store))) = None"
    by (simp_all add: guest_store_def initial_state_def consts_defs)
  from a a' b' c' h n show ?thesis by simp
qed

subsection \<open>C2: pruning the optional parameter\<close>

text \<open>
  Claim C2: a pass without reset whose query does not contain the key \<^verbatim>\<open>preview_token\<close>
  unsets a stored \<^verbatim>\<open>preview_token\<close>. The comment at line 86 announces this: the
  persisted value of an optional parameter that was not passed is deleted. The code does
  not do it. The test of line 88 runs inside the loop over the entries of
  \<^verbatim>\<open>filteredQuery\<close>, which has no entry for a key the query lacks. On the query
  \<^verbatim>\<open>{space_id: "abc", delivery_token: "tok1"}\<close>, with both required parameters and no
  \<^verbatim>\<open>preview_token\<close>, the stored token \<^verbatim>\<open>"ptok"\<close> is still there after the pass.
\<close>

theorem absent_preview_token_not_pruned:
  "ContentfulParams_preview_token \<notin> fst ` set [(''space_id'', JStr ''abc''), (''delivery_token'', JStr ''tok1'')] \<and>
   state guest_store ContentfulParams_preview_token = JStr ''ptok'' \<and>
   state (useEffect [(''space_id'', JStr ''abc''), (''delivery_token'', JStr ''tok1'')] guest_store)
     ContentfulParams_preview_token = JStr ''ptok''"
  by (simp add: useEffect_def forEach_callback_def setState_def get_def entries_def
      fromEntries_def guest_store_def consts_defs)

text \<open>
  This is so for every query and store: a pass without reset never changes a field whose
  key the query lacks.
\<close>

lemma absent_key_untouched:
  assumes "\<not> truthy (get query resetParam)" and "key \<notin> fst ` set query"
  shows "state (useEffect query z) key = state z key"
proof -
  from assms(2) have "key \<notin> fst ` set (filtered query)" by (simp add: filtered_keys)
  then have "map_of (filtered query) key = None" by (simp add: map_of_eq_None_iff)
  then show ?thesis by (simp add: state_useEffect_noreset [OF assms(1)])
qed

text \<open>
  The branch of line 88 is reached only for a \<^verbatim>\<open>preview_token\<close> that is present with a
  falsy value, when both required parameters are truthy; when they are not, line 83
  returns first and the token keeps its value.
\<close>

lemma optional_pruning:
  assumes "wf_object query" and "\<not> truthy (get query resetParam)"
  shows "(truthy (get query ContentfulParams_space_id)
            \<and> truthy (get query ContentfulParams_delivery_token)
            \<and> map_of query ContentfulParams_preview_token = Some v \<and> \<not> truthy v \<longrightarrow>
          state (useEffect query z) ContentfulParams_preview_token = JUndefined) \<and>
         (\<not> truthy (get query ContentfulParams_space_id)
            \<or> \<not> truthy (get query ContentfulParams_delivery_token) \<longrightarrow>
          state (useEffect query z) ContentfulParams_preview_token
            = state z ContentfulParams_preview_token)"
proof (intro conjI impI)
  assume a: "truthy (get query ContentfulParams_space_id)
            \<and> truthy (get query ContentfulParams_delivery_token)
            \<and> map_of query ContentfulParams_preview_token = Some v \<and> \<not> truthy v"
  have rec: "recognised ContentfulParams_preview_token" by (simp add: recognised_iff)
  from a rec have entry: "map_of (filtered query) ContentfulParams_preview_token = Some v"
    by (simp add: filtered_wf [OF assms(1)] map_of_filter_key)
  from a have open_gate:
    "\<not> list_ex (\<lambda>key. \<not> truthy (get (filtered query) key)) guestSpaceRequiredParameters"
    by (simp add: guestSpaceRequiredParameters_def get_filtered_wf [OF assms(1)] recognised_iff)
  from a have falsy: "\<not> truthy (get query ContentfulParams_preview_token)"
    by (simp add: get_def)
  have "callback_calls query (filtered query) (ContentfulParams_preview_token, v)
      = [(ContentfulParams_preview_token, JUndefined)]"
    using assms(2) open_gate falsy
    by (simp add: callback_calls_guest guestSpaceOptionalParameters_def
        ContentfulParams_preview_token_def ContentfulParams_preview_def ContentfulParams_xray_def)
  with entry show "state (useEffect query z) ContentfulParams_preview_token = JUndefined"
    by (simp add: state_useEffect_noreset [OF assms(2)])
next
  assume "\<not> truthy (get query ContentfulParams_space_id)
            \<or> \<not> truthy (get query ContentfulParams_delivery_token)"
  then have blocked:
    "list_ex (\<lambda>key. \<not> truthy (get (filtered query) key)) guestSpaceRequiredParameters"
    by (simp add: guestSpaceRequiredParameters_def get_filtered_wf [OF assms(1)] recognised_iff)
  have "ContentfulParams_preview_token \<notin> fst ` set (calls query)"
  proof
    assume "ContentfulParams_preview_token \<in> fst ` set (calls query)"
    then obtain c where c: "c \<in> set (calls query)" and "fst c = ContentfulParams_preview_token"
      by auto
    with calls_blocked [OF assms(2) blocked c] show False
      by (simp add: consts_defs)
  qed
  then show "state (useEffect query z) ContentfulParams_preview_token
            = state z ContentfulParams_preview_token"
    by (rule state_untouched)
qed

subsection \<open>C3: one required parameter alone\<close>

text \<open>
  Claim C3: when the query does not reset and holds exactly one of the keys
  \<^verbatim>\<open>space_id\<close> and \<^verbatim>\<open>delivery_token\<close>, both fields of the store keep their values, and
  the pass makes no \<^verbatim>\<open>setState\<close> call on either key.
\<close>

theorem single_required_parameter_writes_nothing:
  assumes "\<not> truthy (get query resetParam)"
    and "(ContentfulParams_space_id \<in> fst ` set query)
           \<noteq> (ContentfulParams_delivery_token \<in> fst ` set query)"
  shows "state (useEffect query z) ContentfulParams_space_id = state z ContentfulParams_space_id \<and>
         state (useEffect query z) ContentfulParams_delivery_token
           = state z ContentfulParams_delivery_token \<and>
         (\<forall>c \<in> set (performed query z). fst c \<notin> set guestSpaceRequiredParameters)"
proof -
  from assms(2) have "get (filtered query) ContentfulParams_space_id = JUndefined
      \<or> get (filtered query) ContentfulParams_delivery_token = JUndefined"
    using get_filtered_absent by blast
  then have blocked:
    "list_ex (\<lambda>key. \<not> truthy (get (filtered query) key)) guestSpaceRequiredParameters"
    by (auto simp: guestSpaceRequiredParameters_def)
  have only: "fst c \<in> set editorialParameters" if "c \<in> set (calls query)" for c
    using calls_blocked [OF assms(1) blocked that] .
  have no: "key \<notin> fst ` set (calls query)" if "key \<in> set guestSpaceRequiredParameters" for key
    using only that editorial_not_guest by fastforce
  have "state (useEffect query z) key = state z key"
    if "key \<in> set guestSpaceRequiredParameters" for key
    using state_untouched [OF no [OF that]] .
  moreover have "\<forall>c \<in> set (performed query z). fst c \<notin> set guestSpaceRequiredParameters"
    using no by (auto simp: performed_calls)
  ultimately show ?thesis by (simp add: guestSpaceRequiredParameters_def)
qed

theorem single_required_parameter_writes_nothing_witness:
  "\<not> truthy (get [(''space_id'', JStr ''xyz'')] resetParam) \<and>
   state (useEffect [(''space_id'', JStr ''xyz'')] guest_store) ContentfulParams_space_id = JStr ''abc'' \<and>
   state (useEffect [(''space_id'', JStr ''xyz'')] guest_store) ContentfulParams_delivery_token
     = JStr ''tok1''"
proof -
  have h1: "\<not> truthy (get [(''space_id'', JStr ''xyz'')] resetParam)"
    by (simp add: get_def resetParam_def)
  have h2: "(ContentfulParams_space_id \<in> fst ` set [(''space_id'', JStr ''xyz'')])
           \<noteq> (ContentfulParams_delivery_token \<in> fst ` set [(''space_id'', JStr ''xyz'')])"
    by (simp add: consts_defs)
  from single_required_parameter_writes_nothing [OF h1 h2, of guest_store] h1 show ?thesis
    by (simp add: guest_store_def consts_defs)
qed

subsection \<open>C4: the value the hook returns\<close>

text \<open>
  Claim C4, as stated, makes the hook return \<^verbatim>\<open>client: null\<close> whenever the reset
  parameter is present in the query. Line 105 tests its truthiness: with
  \<^verbatim>\<open>{reset: ""}\<close> and a populated store the hook builds a client.
\<close>

theorem gate_ignores_empty_reset:
  "resetParam \<in> fst ` set [(''reset'', JStr '''')] \<and>
   client (useContentfulUtility [(''reset'', JStr '''')] (state guest_store)) =
     Some (GraphQLClient ''https://graphql.contentful.com/content/v1/spaces/abc/''
       [(''Content-Type'', ''application/json''), (''Authorization'', ''Bearer tok1'')])"
  by (simp add: useContentfulUtility_def Let_def get_def guest_store_def initial_state_def
      consts_defs)

text \<open>
  Claim C4, amended: when \<^verbatim>\<open>space_id\<close> and \<^verbatim>\<open>delivery_token\<close> of the store are both
  truthy (set and non-empty) and the reset parameter of the query is not truthy, the hook
  returns \<^verbatim>\<open>preview\<close>, \<^verbatim>\<open>xray\<close> and a client for the endpoint
  \<^verbatim>\<open>https://graphql.<domain>/content/v1/spaces/<space_id>/\<close>, whose \<^verbatim>\<open>Authorization\<close>
  header is \<^verbatim>\<open>Bearer\<close> followed by \<^verbatim>\<open>preview_token\<close> when \<^verbatim>\<open>preview\<close> is truthy and by
  \<^verbatim>\<open>delivery_token\<close> otherwise; in every other case it returns \<^verbatim>\<open>preview\<close>, \<^verbatim>\<open>xray\<close>
  and \<^verbatim>\<open>client: null\<close>.
\<close>

theorem gate_decision:
  "(truthy (store ContentfulParams_space_id) \<and> truthy (store ContentfulParams_delivery_token)
      \<and> \<not> truthy (get query resetParam) \<longrightarrow>
    useContentfulUtility query store =
      \<lparr>preview = store ContentfulParams_preview, xray = store ContentfulParams_xray,
       client = Some (GraphQLClient
         (''https://graphql.'' @ toString (store ''domain'') @ ''/content/v1/spaces/''
            @ toString (store ContentfulParams_space_id) @ ''/'')
         [(''Content-Type'', ''application/json''),
          (''Authorization'', ''Bearer '' @ toString
             (if truthy (store ContentfulParams_preview) then store ContentfulParams_preview_token
              else store ContentfulParams_delivery_token))])\<rparr>) \<and>
   (\<not> truthy (store ContentfulParams_space_id) \<or> \<not> truthy (store ContentfulParams_delivery_token)
      \<or> truthy (get query resetParam) \<longrightarrow>
    useContentfulUtility query store =
      \<lparr>preview = store ContentfulParams_preview, xray = store ContentfulParams_xray,
       client = None\<rparr>)"
  by (simp add: useContentfulUtility_def Let_def consts_defs)

theorem gate_decision_witness:
  "truthy (state guest_store ContentfulParams_space_id) \<and>
   truthy (state guest_store ContentfulParams_delivery_token) \<and>
   \<not> truthy (get [(''preview'', JStr ''true'')] resetParam) \<and>
   useContentfulUtility [(''preview'', JStr ''true'')] (state guest_store) =
     \<lparr>preview = JBool False, xray = JBool False,
      client = Some (GraphQLClient ''https://graphql.contentful.com/content/v1/spaces/abc/''
        [(''Content-Type'', ''application/json''), (''Authorization'', ''Bearer tok1'')])\<rparr> \<and>
   truthy (get [(''reset'', JStr ''1'')] resetParam) \<and>
   useContentfulUtility [(''reset'', JStr ''1'')] (state guest_store) =
     \<lparr>preview = JBool False, xray = JBool False, client = None\<rparr>"
  using gate_decision [of "state guest_store" "[(''preview'', JStr ''true'')]"]
    gate_decision [of "state guest_store" "[(''reset'', JStr ''1'')]"]
  by (simp add: get_def guest_store_def initial_state_def consts_defs)

subsection \<open>C5: the editorial parameters\<close>

text \<open>
  Claim C5: in a pass without reset, an editorial parameter of the query sets its field
  to \<^verbatim>\<open>true\<close> when its value is the string \<^verbatim>\<open>"true"\<close>, to \<^verbatim>\<open>false\<close> when it is
  \<^verbatim>\<open>"false"\<close>, and leaves the field as it was for any other value. The pass has no
  \<^verbatim>\<open>throw\<close>, and \<open>useEffect\<close> is a total function.
\<close>

theorem editorial_coercion:
  assumes "wf_object query" and "\<not> truthy (get query resetParam)"
    and "key \<in> set editorialParameters" and "map_of query key = Some v"
  shows "state (useEffect query z) key =
           (if v = JStr ''true'' then JBool True
            else if v = JStr ''false'' then JBool False
            else state z key)"
proof -
  from assms(3) have rec: "recognised key" by (simp add: recognised_def)
  from assms(3) have ed: "key = ContentfulParams_preview \<or> key = ContentfulParams_xray"
    by (simp add: editorialParameters_def)
  from assms(1,4) rec have "map_of (filtered query) key = Some v"
    by (simp add: filtered_wf map_of_filter_key)
  then show ?thesis
    by (simp add: state_useEffect_noreset [OF assms(2)] callback_calls_editorial [OF ed])
qed

theorem editorial_coercion_witness:
  "wf_object [(''preview'', JStr ''true''), (''xray'', JStr ''maybe'')] \<and>
   \<not> truthy (get [(''preview'', JStr ''true''), (''xray'', JStr ''maybe'')] resetParam) \<and>
   state (useEffect [(''preview'', JStr ''true''), (''xray'', JStr ''maybe'')] guest_store)
     ContentfulParams_preview = JBool True \<and>
   state (useEffect [(''preview'', JStr ''true''), (''xray'', JStr ''maybe'')] guest_store)
     ContentfulParams_xray = JBool False"
proof -
  let ?q = "[(''preview'', JStr ''true''), (''xray'', JStr ''maybe'')]"
  have h1: "wf_object ?q" by (simp add: wf_object_def)
  have h2: "\<not> truthy (get ?q resetParam)" by (simp add: get_def resetParam_def)
  have h3: "ContentfulParams_preview \<in> set editorialParameters"
    and h3': "ContentfulParams_xray \<in> set editorialParameters"
    by (simp_all add: editorialParameters_def)
  have h4: "map_of ?q ContentfulParams_preview = Some (JStr ''true'')"
    and h4': "map_of ?q ContentfulParams_xray = Some (JStr ''maybe'')"
    by (simp_all add: consts_defs)
  from editorial_coercion [OF h1 h2 h3 h4, of guest_store]
    editorial_coercion [OF h1 h2 h3' h4', of guest_store] h1 h2
  show ?thesis by (simp add: guest_store_def initial_state_def consts_defs)
qed

subsection \<open>C6: the seeded fields\<close>

lemma domain_untouched: "state (useEffect q z) ''domain'' = state z ''domain''"
proof (rule state_untouched, rule notI)
  assume "''domain'' \<in> fst ` set (calls q)"
  then obtain c where "c \<in> set (calls q)" and "fst c = ''domain''" by auto
  with calls_recognised [of c q] show False by (simp add: recognised_iff consts_defs)
qed

lemma editorial_stays_boolean:
  assumes "key = ContentfulParams_preview \<or> key = ContentfulParams_xray"
    and "\<exists>b. state z key = JBool b"
  shows "\<exists>b. state (useEffect q z) key = JBool b"
proof (cases "truthy (get q resetParam)")
  case True
  with assms show ?thesis by (auto simp: useEffect_reset state_replay consts_defs)
next
  case False
  with assms show ?thesis
    by (auto simp: state_useEffect_noreset callback_calls_editorial split: option.splits)
qed

lemma passes_snoc: "passes (qs @ [q]) z = useEffect q (passes qs z)"
  by (simp add: passes_def)

lemma passes_invariant:
  "state (passes qs useContentfulUtilityStore) ''domain'' = JStr ''contentful.com'' \<and>
   (\<exists>b. state (passes qs useContentfulUtilityStore) ContentfulParams_preview = JBool b) \<and>
   (\<exists>b. state (passes qs useContentfulUtilityStore) ContentfulParams_xray = JBool b)"
proof (induction qs rule: rev_induct)
  case Nil
  show ?case
    by (auto simp: passes_def useContentfulUtilityStore_def initial_state_def consts_defs)
next
  case (snoc q qs)
  then show ?case
    by (simp add: passes_snoc domain_untouched editorial_stays_boolean)
qed

text \<open>
  Claim C6: after any sequence of passes over the store as it is created, the fields
  \<^verbatim>\<open>domain\<close>, \<^verbatim>\<open>preview\<close> and \<^verbatim>\<open>xray\<close> are defined.
\<close>

theorem defaults_stay_defined:
  "state (passes queries useContentfulUtilityStore) ''domain'' \<noteq> JUndefined \<and>
   state (passes queries useContentfulUtilityStore) ContentfulParams_preview \<noteq> JUndefined \<and>
   state (passes queries useContentfulUtilityStore) ContentfulParams_xray \<noteq> JUndefined"
  using passes_invariant [of queries] by auto

theorem defaults_stay_defined_witness:
  "state (passes [[(''reset'', JStr ''1'')], [(''preview'', JStr ''true'')]]
      useContentfulUtilityStore) ''domain'' \<noteq> JUndefined \<and>
   state (passes [[(''reset'', JStr ''1'')], [(''preview'', JStr ''true'')]]
      useContentfulUtilityStore) ContentfulParams_preview \<noteq> JUndefined \<and>
   state (passes [[(''reset'', JStr ''1'')], [(''preview'', JStr ''true'')]]
      useContentfulUtilityStore) ContentfulParams_xray \<noteq> JUndefined"
  by (rule defaults_stay_defined)

subsection \<open>C7: idempotence\<close>

text \<open>
  Claim C7: a second pass with the same query leaves the state of the store as the first
  pass left it.
\<close>

theorem useEffect_idempotent:
  "state (useEffect query (useEffect query z)) = state (useEffect query z)"
proof
  fix key
  show "state (useEffect query (useEffect query z)) key = state (useEffect query z) key"
    by (simp add: useEffect_replay [of query] state_replay split: option.splits)
qed

theorem useEffect_idempotent_witness:
  "state (useEffect [(''space_id'', JStr ''s''), (''delivery_token'', JStr ''d'')]
     (useEffect [(''space_id'', JStr ''s''), (''delivery_token'', JStr ''d'')] guest_store))
   = state (useEffect [(''space_id'', JStr ''s''), (''delivery_token'', JStr ''d'')] guest_store)"
  by (rule useEffect_idempotent)

subsection \<open>C8: unrecognised parameters\<close>

lemma useEffect_drops_unrecognised:
  "useEffect (filter (\<lambda>(key, _). recognised key \<or> key = resetParam) query) z = useEffect query z"
proof -
  let ?q' = "filter (\<lambda>(key, _). recognised key \<or> key = resetParam) query"
  have reset: "get ?q' resetParam = get query resetParam"
    by (simp add: get_filter_key)
  then have treset: "truthy (get ?q' resetParam) = truthy (get query resetParam)"
    by simp
  have "filter (\<lambda>(key, _). recognised key) ?q' = filter (\<lambda>(key, _). recognised key) query"
    by (induction query) auto
  then have fq: "filtered ?q' = filtered query"
    by (simp add: filtered_def entries_def)
  show ?thesis
  proof (cases "truthy (get query resetParam)")
    case True
    then show ?thesis by (simp add: useEffect_reset reset)
  next
    case False
    have "get ?q' (fst e) = get query (fst e)" if "e \<in> set (filtered query)" for e
    proof -
      from that have "fst e \<in> fst ` set (filtered query)" by (rule imageI)
      then have "recognised (fst e)" by (simp add: filtered_keys)
      then show ?thesis by (simp add: get_filter_key)
    qed
    with False show ?thesis
      by (simp add: useEffect_filtered reset fq foldl_callback_cong [OF treset])
  qed
qed

text \<open>
  Claim C8: a pass changes no field of the store outside the five recognised names, calls
  \<^verbatim>\<open>setState\<close> on recognised names only, and does the same as the pass over the query
  with every entry removed whose key is neither recognised nor the reset parameter.
\<close>

theorem unrecognised_keys_dropped:
  "(\<forall>key. key \<notin> set (guestSpaceRequiredParameters @ guestSpaceOptionalParameters
                        @ editorialParameters) \<longrightarrow>
      state (useEffect query z) key = state z key) \<and>
   (\<forall>c \<in> set (performed query z).
      fst c \<in> set (guestSpaceRequiredParameters @ guestSpaceOptionalParameters
                    @ editorialParameters)) \<and>
   useEffect (filter (\<lambda>(key, _). key \<in> set (guestSpaceRequiredParameters
       @ guestSpaceOptionalParameters @ editorialParameters) \<or> key = resetParam) query) z
     = useEffect query z"
proof (intro conjI allI impI ballI)
  fix key
  assume "key \<notin> set (guestSpaceRequiredParameters @ guestSpaceOptionalParameters
                        @ editorialParameters)"
  then have "\<not> recognised key" by (simp add: recognised_def)
  with calls_recognised [of _ query] have "key \<notin> fst ` set (calls query)" by auto
  then show "state (useEffect query z) key = state z key" by (rule state_untouched)
next
  fix c
  assume "c \<in> set (performed query z)"
  then have "recognised (fst c)" by (simp add: performed_calls calls_recognised)
  then show "fst c \<in> set (guestSpaceRequiredParameters @ guestSpaceOptionalParameters
                    @ editorialParameters)"
    by (simp add: recognised_def)
next
  show "useEffect (filter (\<lambda>(key, _). key \<in> set (guestSpaceRequiredParameters
       @ guestSpaceOptionalParameters @ editorialParameters) \<or> key = resetParam) query) z
     = useEffect query z"
    using useEffect_drops_unrecognised [of query z] by (simp add: recognised_def)
qed

theorem unrecognised_keys_dropped_witness:
  "''utm_source'' \<notin> set (guestSpaceRequiredParameters @ guestSpaceOptionalParameters
                             @ editorialParameters) \<and>
   state (useEffect [(''utm_source'', JStr ''space_id''), (''preview'', JStr ''true'')] guest_store)
     ''utm_source'' = JUndefined \<and>
   useEffect [(''preview'', JStr ''true'')] guest_store
     = useEffect [(''utm_source'', JStr ''space_id''), (''preview'', JStr ''true'')] guest_store"
proof -
  let ?q = "[(''utm_source'', JStr ''space_id''), (''preview'', JStr ''true'')]"
  have h: "''utm_source'' \<notin> set (guestSpaceRequiredParameters @ guestSpaceOptionalParameters
                             @ editorialParameters)"
    by (simp add: consts_defs)
  from unrecognised_keys_dropped [of ?q guest_store]
  have a: "\<forall>key. key \<notin> set (guestSpaceRequiredParameters @ guestSpaceOptionalParameters
                        @ editorialParameters) \<longrightarrow>
      state (useEffect ?q guest_store) key = state guest_store key"
    and c: "useEffect (filter (\<lambda>(key, _). key \<in> set (guestSpaceRequiredParameters
       @ guestSpaceOptionalParameters @ editorialParameters) \<or> key = resetParam) ?q) guest_store
     = useEffect ?q guest_store"
    by blast+
  from a h have "state (useEffect ?q guest_store) ''utm_source'' = state guest_store ''utm_source''"
    by blast
  moreover from c have "useEffect [(''preview'', JStr ''true'')] guest_store
      = useEffect ?q guest_store"
    by (simp add: consts_defs)
  ultimately show ?thesis using h
    by (simp add: guest_store_def initial_state_def)
qed

subsection \<open>C9: a required parameter with the empty string\<close>

text \<open>
  Claim C9: when the query does not reset and gives \<^verbatim>\<open>space_id\<close> or
  \<^verbatim>\<open>delivery_token\<close> the empty string, the pass makes no \<^verbatim>\<open>setState\<close> call on a guest
  key, required or optional, and these fields keep their values.
\<close>

theorem empty_required_parameter_blocks_guest_writes:
  assumes "wf_object query" and "\<not> truthy (get query resetParam)"
    and "map_of query ContentfulParams_space_id = Some (JStr '''')
         \<or> map_of query ContentfulParams_delivery_token = Some (JStr '''')"
  shows "(\<forall>c \<in> set (performed query z).
            fst c \<notin> set (guestSpaceRequiredParameters @ guestSpaceOptionalParameters)) \<and>
         (\<forall>key \<in> set (guestSpaceRequiredParameters @ guestSpaceOptionalParameters).
            state (useEffect query z) key = state z key)"
proof -
  from assms(3) have "get query ContentfulParams_space_id = JStr ''''
      \<or> get query ContentfulParams_delivery_token = JStr ''''"
    by (auto simp: get_def)
  then have "get (filtered query) ContentfulParams_space_id = JStr ''''
      \<or> get (filtered query) ContentfulParams_delivery_token = JStr ''''"
    by (simp add: get_filtered_wf [OF assms(1)] recognised_iff)
  then have blocked:
    "list_ex (\<lambda>key. \<not> truthy (get (filtered query) key)) guestSpaceRequiredParameters"
    by (auto simp: guestSpaceRequiredParameters_def)
  have only: "fst c \<in> set editorialParameters" if "c \<in> set (calls query)" for c
    using calls_blocked [OF assms(2) blocked that] .
  have no: "key \<notin> fst ` set (calls query)"
    if "key \<in> set (guestSpaceRequiredParameters @ guestSpaceOptionalParameters)" for key
    using only that editorial_not_guest by fastforce
  have "\<forall>c \<in> set (performed query z).
      fst c \<notin> set (guestSpaceRequiredParameters @ guestSpaceOptionalParameters)"
    using no unfolding performed_calls by blast
  moreover have "\<forall>key \<in> set (guestSpaceRequiredParameters @ guestSpaceOptionalParameters).
      state (useEffect query z) key = state z key"
    using no state_untouched by blast
  ultimately show ?thesis by blast
qed

theorem empty_required_parameter_blocks_guest_writes_witness:
  "wf_object [(''space_id'', JStr ''''), (''delivery_token'', JStr ''d''), (''preview_token'', JStr ''p'')] \<and>
   \<not> truthy (get [(''space_id'', JStr ''''), (''delivery_token'', JStr ''d''),
       (''preview_token'', JStr ''p'')] resetParam) \<and>
   state (useEffect [(''space_id'', JStr ''''), (''delivery_token'', JStr ''d''),
       (''preview_token'', JStr ''p'')] guest_store) ContentfulParams_delivery_token = JStr ''tok1'' \<and>
   state (useEffect [(''space_id'', JStr ''''), (''delivery_token'', JStr ''d''),
       (''preview_token'', JStr ''p'')] guest_store) ContentfulParams_preview_token = JStr ''ptok''"
proof -
  let ?q = "[(''space_id'', JStr ''''), (''delivery_token'', JStr ''d''),
       (''preview_token'', JStr ''p'')]"
  have h1: "wf_object ?q" by (simp add: wf_object_def)
  have h2: "\<not> truthy (get ?q resetParam)" by (simp add: get_def resetParam_def)
  have h3: "map_of ?q ContentfulParams_space_id = Some (JStr '''')
         \<or> map_of ?q ContentfulParams_delivery_token = Some (JStr '''')"
    by (simp add: consts_defs)
  from empty_required_parameter_blocks_guest_writes [OF h1 h2 h3, of guest_store]
  have "\<forall>key \<in> set (guestSpaceRequiredParameters @ guestSpaceOptionalParameters).
      state (useEffect ?q guest_store) key = state guest_store key"
    by blast
  then have "state (useEffect ?q guest_store) ContentfulParams_delivery_token
        = state guest_store ContentfulParams_delivery_token"
    and "state (useEffect ?q guest_store) ContentfulParams_preview_token
        = state guest_store ContentfulParams_preview_token"
    by (simp_all add: guestSpaceRequiredParameters_def guestSpaceOptionalParameters_def)
  with h1 h2 show ?thesis
    by (simp add: guest_store_def consts_defs)
qed

subsection \<open>C10: the calls do not depend on the store\<close>

text \<open>
  Claim C10: a pass appends its \<^verbatim>\<open>setState\<close> calls to the history, and the calls it
  makes for a query, keys and values in order, are the same on any two stores.
\<close>

theorem calls_independent_of_store:
  "history (useEffect query z1) = history z1 @ performed query z1 \<and>
   history (useEffect query z2) = history z2 @ performed query z2 \<and>
   performed query z1 = performed query z2"
  by (simp add: performed_calls useEffect_replay [of query] history_replay)

theorem calls_independent_of_store_witness:
  "performed [(''space_id'', JStr ''s''), (''delivery_token'', JStr ''d'')] guest_store
   = performed [(''space_id'', JStr ''s''), (''delivery_token'', JStr ''d'')]
       useContentfulUtilityStore"
  using calls_independent_of_store [of "[(''space_id'', JStr ''s''), (''delivery_token'', JStr ''d'')]"
      guest_store useContentfulUtilityStore]
  by blast

end
